theory Spec2Isabelle
  imports Complex_Main
begin

section \<open>Duh1a.py: the offtake channel computation\<close>

text \<open>
  A shallow embedding of \<^verbatim>\<open>compute_channel\<close> (Duh1a.py, lines 11 to 73).
  A Python float is modelled as the real number it stands for, and an arithmetic
  operation as the exact operation on reals. Everything the interpreter raises is
  written out: the exceptions of \<^verbatim>\<open>math.sqrt\<close>, \<^verbatim>\<open>math.log10\<close> and \<^verbatim>\<open>/\<close>, the
  \<^verbatim>\<open>OverflowError\<close> of \<^verbatim>\<open>**\<close> when the power is beyond the largest float, the complex
  result of a negative float raised to a fractional power, and the \<^verbatim>\<open>TypeError\<close> of
  comparing a complex number. The rendering of a number to ten decimals in the file is
  modelled by \<open>render10\<close>. What the model leaves out is the rounding of each arithmetic
  result to a float (so \<^verbatim>\<open>b += alh\<close> adds exactly here, while on floats
  \<^verbatim>\<open>1e16 + 1.0 == 1e16\<close>), and the special values infinity and NaN.
\<close>

subsection \<open>Python numbers and the operations the function uses\<close>

datatype error = ValueError string | ZeroDivisionError | TypeError | OverflowError

text \<open>A value that is a float, or a complex number (only \<^verbatim>\<open>**\<close> produces the latter).\<close>

datatype pynum = PFloat real | PComplex complex

definition bindE :: "error + 'a \<Rightarrow> ('a \<Rightarrow> error + 'b) \<Rightarrow> error + 'b" where
  "bindE m k = (case m of Inl e \<Rightarrow> Inl e | Inr v \<Rightarrow> k v)"

text \<open>\<^verbatim>\<open>math.sqrt(x)\<close>: a negative argument raises \<^verbatim>\<open>ValueError\<close>.\<close>

definition math_sqrt :: "real \<Rightarrow> error + real" where
  "math_sqrt x = (if x < 0 then Inl (ValueError ''math domain error'') else Inr (sqrt x))"

text \<open>\<^verbatim>\<open>math.log10(x)\<close>: an argument that is not positive raises \<^verbatim>\<open>ValueError\<close>.\<close>

definition math_log10 :: "real \<Rightarrow> error + real" where
  "math_log10 x = (if x \<le> 0 then Inl (ValueError ''math domain error'') else Inr (log 10 x))"

text \<open>\<^verbatim>\<open>x / y\<close> on floats.\<close>

definition truediv :: "real \<Rightarrow> real \<Rightarrow> error + real" where
  "truediv x y = (if y = 0 then Inl ZeroDivisionError else Inr (x / y))"

text \<open>The largest finite float, \<open>(2 - 2\<^sup>-\<^sup>5\<^sup>2) 2\<^sup>1\<^sup>0\<^sup>2\<^sup>3\<close>.\<close>

definition float_max :: real where
  "float_max = (2 - 1 / 2 ^ 52) * 2 ^ 1023"

text \<open>
  \<^verbatim>\<open>x ** y\<close> on floats. Anything to the power 0 is 1; zero to a negative power raises
  \<^verbatim>\<open>ZeroDivisionError\<close>; a negative base with an exponent that is not a whole number
  gives the complex number \<open>|x|\<^sup>y (cos \<pi>y + i sin \<pi>y)\<close>; a negative base with a whole
  exponent gives the signed integer power. A power whose size is beyond the largest
  float raises \<^verbatim>\<open>OverflowError\<close>.
\<close>

definition float_pow :: "real \<Rightarrow> real \<Rightarrow> error + pynum" where
  "float_pow x y =
     (if y = 0 then Inr (PFloat 1)
      else if x = 0 then (if y < 0 then Inl ZeroDivisionError else Inr (PFloat 0))
      else if x < 0 then
        (if y = of_int \<lfloor>y\<rfloor> then
           (if float_max < \<bar>x powi \<lfloor>y\<rfloor>\<bar> then Inl OverflowError
            else Inr (PFloat (x powi \<lfloor>y\<rfloor>)))
         else
           (if float_max < \<bar>x\<bar> powr y then Inl OverflowError
            else Inr (PComplex (of_real (\<bar>x\<bar> powr y) * cis (pi * y)))))
      else
        (if float_max < x powr y then Inl OverflowError else Inr (PFloat (x powr y))))"

text \<open>\<^verbatim>\<open>x + v\<close> for a float \<open>x\<close>.\<close>

definition float_add_num :: "real \<Rightarrow> pynum \<Rightarrow> pynum" where
  "float_add_num x v = (case v of PFloat y \<Rightarrow> PFloat (x + y) | PComplex z \<Rightarrow> PComplex (of_real x + z))"

text \<open>\<^verbatim>\<open>math.sqrt(v)\<close>: a complex argument raises \<^verbatim>\<open>TypeError\<close>.\<close>

definition math_sqrt_num :: "pynum \<Rightarrow> error + real" where
  "math_sqrt_num v = (case v of PFloat y \<Rightarrow> math_sqrt y | PComplex z \<Rightarrow> Inl TypeError)"

text \<open>\<^verbatim>\<open>x * v\<close> and \<^verbatim>\<open>v * x\<close> for a float \<open>x\<close>: a complex operand makes the product complex.\<close>

definition float_mul_num :: "real \<Rightarrow> pynum \<Rightarrow> pynum" where
  "float_mul_num x v = (case v of PFloat y \<Rightarrow> PFloat (x * y) | PComplex z \<Rightarrow> PComplex (of_real x * z))"

definition num_mul_float :: "pynum \<Rightarrow> real \<Rightarrow> pynum" where
  "num_mul_float v x = (case v of PFloat y \<Rightarrow> PFloat (y * x) | PComplex z \<Rightarrow> PComplex (z * of_real x))"

text \<open>\<^verbatim>\<open>v <= x\<close> and \<^verbatim>\<open>v < x\<close> for a float \<open>x\<close>: complex numbers are not ordered.\<close>

definition num_le_float :: "pynum \<Rightarrow> real \<Rightarrow> error + bool" where
  "num_le_float v x = (case v of PFloat y \<Rightarrow> Inr (y \<le> x) | PComplex z \<Rightarrow> Inl TypeError)"

definition num_lt_float :: "pynum \<Rightarrow> real \<Rightarrow> error + bool" where
  "num_lt_float v x = (case v of PFloat y \<Rightarrow> Inr (y < x) | PComplex z \<Rightarrow> Inl TypeError)"

text \<open>The number a value stands for, whatever its Python type.\<close>

definition num_val :: "pynum \<Rightarrow> complex" where
  "num_val v = (case v of PFloat y \<Rightarrow> of_real y | PComplex z \<Rightarrow> z)"

subsection \<open>Arguments, loop state and result\<close>

text \<open>The arguments of \<^verbatim>\<open>compute_channel\<close>, under their own names.\<close>

record params =
  q :: real
  sl :: real
  mn :: real
  nb :: real
  h :: real
  jcz :: int
  b0 :: real
  n :: int
  alh :: real

text \<open>
  The four tracking variables of lines 26 to 29. \<^verbatim>\<open>qth\<close> and \<^verbatim>\<open>czt\<close> receive the
  values of \<^verbatim>\<open>qt\<close> and \<^verbatim>\<open>cz\<close>, whose Python type is not fixed.
\<close>

record best =
  bt :: real
  qth :: pynum
  rgt :: real
  czt :: pynum

text \<open>
  The loop state adds the current width and, in \<open>qfb_dat\<close>, the pairs \<^verbatim>\<open>(b, qt)\<close> that
  line 55 has formatted and written, in order. The text the file holds is their
  rendering to ten decimals, \<open>file_text\<close> below.
\<close>

record loop_state = best +
  b :: real
  qfb_dat :: "(real \<times> pynum) list"

text \<open>The dictionary returned on line 70.\<close>

record result = best +
  cr05 :: pynum

datatype flow = Continue loop_state | Break loop_state | Raise error loop_state

subsection \<open>One iteration\<close>

text \<open>Lines 34 to 38: wetted area \<^verbatim>\<open>w\<close>, wetted perimeter \<^verbatim>\<open>ksi\<close>, hydraulic radius \<^verbatim>\<open>rg\<close>.\<close>

definition geometry :: "params \<Rightarrow> real \<Rightarrow> error + (real \<times> real)" where
  "geometry p bb =
     (let w = (bb + mn p * h p) * h p in
      bindE (float_pow (mn p) 2) (\<lambda>m2.
      bindE (math_sqrt_num (float_add_num 1 m2)) (\<lambda>s.
        let ksi = bb + 2 * h p * s;
            ksi = (if ksi \<le> 0 then 1 / 10 ^ 12 else ksi)
        in bindE (truediv w ksi) (\<lambda>rg. Inr (w, rg)))))"

text \<open>Lines 41 to 48: the Chezy coefficient \<^verbatim>\<open>cz\<close> by the formula \<^verbatim>\<open>jcz\<close> selects.\<close>

definition chezy :: "params \<Rightarrow> real \<Rightarrow> error + pynum" where
  "chezy p rg =
     (if jcz p = 0 then
        bindE (math_sqrt (nb p)) (\<lambda>s.
          let ay = (if rg \<ge> 1 then 1.5 * s else 1.3 * s) in
          bindE (truediv 1 (nb p)) (\<lambda>r.
          bindE (float_pow rg ay) (\<lambda>pw. Inr (float_mul_num r pw))))
      else if jcz p = 1 then
        bindE (truediv 1 (nb p)) (\<lambda>r.
        bindE (math_log10 (if rg > 1 / 10 ^ 12 then rg else 1 / 10 ^ 12)) (\<lambda>l.
          Inr (PFloat (r + 17.72 * l))))
      else
        bindE (truediv 1 (nb p)) (\<lambda>r.
        bindE (truediv 1 6) (\<lambda>e.
        bindE (float_pow rg e) (\<lambda>pw. Inr (float_mul_num r pw)))))"

text \<open>Lines 51 and 52: the discharge \<^verbatim>\<open>qt\<close>.\<close>

definition discharge :: "params \<Rightarrow> real \<Rightarrow> real \<Rightarrow> pynum \<Rightarrow> error + pynum" where
  "discharge p w rg cz =
     (let rgsl = rg * sl p in
      bindE (math_sqrt (if rgsl > 0 then rgsl else 0)) (\<lambda>s.
        Inr (num_mul_float (float_mul_num w cz) s)))"

text \<open>Lines 34 to 52 at the width \<open>bb\<close>: \<^verbatim>\<open>(w, rg, cz, qt)\<close>.\<close>

definition evaluate :: "params \<Rightarrow> real \<Rightarrow> error + (real \<times> real \<times> pynum \<times> pynum)" where
  "evaluate p bb =
     bindE (geometry p bb) (\<lambda>(w, rg).
     bindE (chezy p rg) (\<lambda>cz.
     bindE (discharge p w rg cz) (\<lambda>qt. Inr (w, rg, cz, qt))))"

text \<open>
  The body of the \<^verbatim>\<open>for\<close> loop, lines 33 to 68: evaluate, write the pair, track the
  last value not exceeding \<^verbatim>\<open>q\<close>, then advance or break. An exception leaves the
  state as it is at the raising line. The sum \<open>b + alh\<close> of line 66 is the exact one;
  its rounding to a float is not modelled.
\<close>

definition loop_body :: "params \<Rightarrow> loop_state \<Rightarrow> flow" where
  "loop_body p st =
     (case evaluate p (b st) of
        Inl e \<Rightarrow> Raise e st
      | Inr (w, rg, cz, qt) \<Rightarrow>
          let st1 = st\<lparr>qfb_dat := qfb_dat st @ [(b st, qt)]\<rparr> in
          (case num_le_float qt (q p) of
             Inl e \<Rightarrow> Raise e st1
           | Inr c \<Rightarrow>
               let st2 = (if c then st1\<lparr>bt := b st, qth := qt, rgt := rg, czt := cz\<rparr> else st1) in
               (case num_lt_float qt (1.2 * q p) of
                  Inl e \<Rightarrow> Raise e st2
                | Inr c2 \<Rightarrow> if c2 then Continue (st2\<lparr>b := b st2 + alh p\<rparr>) else Break st2)))"

subsection \<open>The loop and the function\<close>

text \<open>\<^verbatim>\<open>for _ in range(k)\<close>: at most \<open>k\<close> iterations, ended early by \<^verbatim>\<open>break\<close> or an exception.\<close>

fun for_range :: "params \<Rightarrow> nat \<Rightarrow> loop_state \<Rightarrow> error option \<times> loop_state" where
  "for_range p 0 st = (None, st)"
| "for_range p (Suc k) st =
     (case loop_body p st of
        Continue st' \<Rightarrow> for_range p k st'
      | Break st' \<Rightarrow> (None, st')
      | Raise e st' \<Rightarrow> (Some e, st'))"

text \<open>Lines 25 to 29: the state before the loop, on the freshly truncated file.\<close>

definition init_state :: "params \<Rightarrow> loop_state" where
  "init_state p = \<lparr>bt = 0, qth = PFloat 0, rgt = 0, czt = PFloat 0, b = b0 p, qfb_dat = []\<rparr>"

text \<open>Lines 70 to 73: the returned dictionary.\<close>

definition make_result :: "loop_state \<Rightarrow> error + result" where
  "make_result st =
     bindE (math_sqrt (if rgt st > 0 then rgt st else 0)) (\<lambda>s.
       Inr \<lparr>bt = bt st, qth = qth st, rgt = rgt st, czt = czt st,
            cr05 = num_mul_float (czt st) s\<rparr>)"

text \<open>
  \<^verbatim>\<open>compute_channel\<close>. The first component is \<open>None\<close> when the call never opens
  \<^verbatim>\<open>qfb.dat\<close>, and otherwise the pairs it has written to the file; the second is the
  exception raised or the dictionary returned.
\<close>

definition compute_channel :: "params \<Rightarrow> (real \<times> pynum) list option \<times> (error + result)" where
  "compute_channel p =
     (if nb p \<le> 0 then (None, Inl (ValueError ''Barzgarshilt (nb) must be > 0.''))
      else if h p \<le> 0 then (None, Inl (ValueError ''Depth h must be > 0.''))
      else if sl p < 0 then (None, Inl (ValueError ''Slope sl must be >= 0.''))
      else if jcz p \<notin> {0, 1, 2} then
        (None, Inl (ValueError ''jcz must be 0 (Pawlowski), 1 (Agroskin), or 2 (Manning).''))
      else
        (case for_range p (nat (n p)) (init_state p) of
           (Some e, st) \<Rightarrow> (Some (qfb_dat st), Inl e)
         | (None, st) \<Rightarrow> (Some (qfb_dat st), make_result st)))"

subsection \<open>The text of the file\<close>

text \<open>Rounding to the nearest integer, a tie going to the even one.\<close>

definition round_half_even :: "real \<Rightarrow> int" where
  "round_half_even x =
     (if x - of_int \<lfloor>x\<rfloor> < 1 / 2 then \<lfloor>x\<rfloor>
      else if 1 / 2 < x - of_int \<lfloor>x\<rfloor> then \<lfloor>x\<rfloor> + 1
      else if even \<lfloor>x\<rfloor> then \<lfloor>x\<rfloor> else \<lfloor>x\<rfloor> + 1)"

text \<open>The number that the format \<^verbatim>\<open>.10f\<close> of line 55 prints for \<open>x\<close>.\<close>

definition render10 :: "real \<Rightarrow> real" where
  "render10 x = of_int (round_half_even (x * 10 ^ 10)) / 10 ^ 10"

definition render_num :: "pynum \<Rightarrow> pynum" where
  "render_num v =
     (case v of PFloat y \<Rightarrow> PFloat (render10 y)
      | PComplex z \<Rightarrow> PComplex (Complex (render10 (Re z)) (render10 (Im z))))"

text \<open>The pairs of numbers read back from the file, for the pairs written to it.\<close>

definition file_text :: "(real \<times> pynum) list \<Rightarrow> (real \<times> pynum) list" where
  "file_text xs = map (\<lambda>(bb, qt). (render10 bb, render_num qt)) xs"

subsection \<open>Validated arguments and the formulas of the specification\<close>

definition validated :: "params \<Rightarrow> bool" where
  "validated p \<longleftrightarrow> 0 < nb p \<and> 0 < h p \<and> 0 \<le> sl p \<and> jcz p \<in> {0, 1, 2}"

definition spec_area :: "params \<Rightarrow> real \<Rightarrow> real" where
  "spec_area p bb = (bb + mn p * h p) * h p"

definition spec_perimeter :: "params \<Rightarrow> real \<Rightarrow> real" where
  "spec_perimeter p bb =
     (let P = bb + 2 * h p * sqrt (1 + (mn p)\<^sup>2) in if P \<le> 0 then 1 / 10 ^ 12 else P)"

definition spec_radius :: "params \<Rightarrow> real \<Rightarrow> real" where
  "spec_radius p bb = spec_area p bb / spec_perimeter p bb"

definition spec_chezy :: "params \<Rightarrow> real \<Rightarrow> real" where
  "spec_chezy p R =
     (if jcz p = 0 then (1 / nb p) * R powr (if R \<ge> 1 then 1.5 * sqrt (nb p) else 1.3 * sqrt (nb p))
      else if jcz p = 1 then 1 / nb p + 17.72 * log 10 (max R (1 / 10 ^ 12))
      else (1 / nb p) * R powr (1 / 6))"


subsection \<open>Replaying the recorded samples\<close>

text \<open>A sample whose discharge is a float not above the target \<open>qq\<close>.\<close>

definition within_target :: "real \<Rightarrow> real \<times> pynum \<Rightarrow> bool" where
  "within_target qq s = (case snd s of PFloat x \<Rightarrow> x \<le> qq | PComplex z \<Rightarrow> False)"

text \<open>The selection rule over a recorded sequence: the last sample within the target.\<close>

definition select_last :: "real \<Rightarrow> (real \<times> pynum) list \<Rightarrow> (real \<times> pynum) option" where
  "select_last qq xs =
     (case filter (within_target qq) xs of [] \<Rightarrow> None | y # ys \<Rightarrow> Some (last (y # ys)))"

text \<open>The record of a run in which no sample was retained.\<close>

definition zero_result :: result where
  "zero_result = \<lparr>bt = 0, qth = PFloat 0, rgt = 0, czt = PFloat 0, cr05 = PFloat 0\<rparr>"

text \<open>
  The result rebuilt from a recorded sequence: the selected sample gives width and
  discharge, the hydraulic radius and the coefficient are computed again at that width.
\<close>

definition replay :: "params \<Rightarrow> (real \<times> pynum) list \<Rightarrow> error + result" where
  "replay p xs =
     (case select_last (q p) xs of
        None \<Rightarrow> Inr zero_result
      | Some (bb, qt) \<Rightarrow>
          bindE (evaluate p bb) (\<lambda>(w, rg, cz, qt').
          bindE (math_sqrt (if rg > 0 then rg else 0)) (\<lambda>s.
            Inr \<lparr>bt = bb, qth = qt, rgt = rg, czt = cz, cr05 = num_mul_float cz s\<rparr>)))"

subsection \<open>Concrete arguments\<close>

text \<open>The scenario of the specification with the formula selector 3.\<close>

definition ex_selector3 :: params where
  "ex_selector3 =
     \<lparr>q = 5, sl = 0.001, mn = 1.5, nb = 0.025, h = 1.2, jcz = 3, b0 = 0.5, n = 10000, alh = 0.01\<rparr>"

text \<open>A flat bed (no slope, so every discharge is 0), two steps of width 1 from width 4.\<close>

definition ex_unit_step :: params where
  "ex_unit_step =
     \<lparr>q = 1, sl = 0, mn = 0, nb = 1, h = 2, jcz = 2, b0 = 4, n = 2, alh = 1\<rparr>"

text \<open>The same with the step - 1.\<close>

definition ex_negative_step :: params where
  "ex_negative_step =
     \<lparr>q = 1, sl = 0, mn = 0, nb = 1, h = 2, jcz = 2, b0 = 4, n = 2, alh = - 1\<rparr>"


text \<open>The same with the target discharge 0.\<close>

definition ex_zero_target :: params where
  "ex_zero_target =
     \<lparr>q = 0, sl = 0, mn = 0, nb = 1, h = 2, jcz = 2, b0 = 4, n = 2, alh = 1\<rparr>"

text \<open>A negative initial width under the Manning formula.\<close>

definition ex_negative_width_manning :: params where
  "ex_negative_width_manning =
     \<lparr>q = 1, sl = 0, mn = 0, nb = 1, h = 1, jcz = 2, b0 = - 1, n = 1, alh = 1 / 10 ^ 4\<rparr>"

text \<open>The same under the Agroskin formula.\<close>

definition ex_negative_width_agroskin :: params where
  "ex_negative_width_agroskin =
     \<lparr>q = 1, sl = 0, mn = 0, nb = 1, h = 1, jcz = 1, b0 = - 1, n = 1, alh = 1 / 10 ^ 4\<rparr>"

text \<open>Negative target, side slope and initial width.\<close>

definition ex_negative_inputs :: params where
  "ex_negative_inputs =
     \<lparr>q = - 1, sl = 0, mn = - 1, nb = 1, h = 1, jcz = 1, b0 = - 1, n = 1, alh = 1 / 10 ^ 4\<rparr>"

text \<open>A bed of slope 1 / 4: at width 4 the discharge is 4, above the target.\<close>

definition ex_quarter_slope :: params where
  "ex_quarter_slope =
     \<lparr>q = 3.5, sl = 1 / 4, mn = 0, nb = 1, h = 2, jcz = 2, b0 = 4, n = 1, alh = 1\<rparr>"

text \<open>A negative initial width under the Manning formula, with a budget of two steps.\<close>

definition ex_negative_width_two_steps :: params where
  "ex_negative_width_two_steps =
     \<lparr>q = 1, sl = 0, mn = 0, nb = 1, h = 1, jcz = 2, b0 = - 1, n = 2, alh = 1 / 10 ^ 4\<rparr>"

text \<open>A side slope whose square is beyond the largest float.\<close>

definition ex_steep_banks :: params where
  "ex_steep_banks =
     \<lparr>q = 1, sl = 0, mn = 10 ^ 200, nb = 1, h = 1, jcz = 2, b0 = 1, n = 1, alh = 1 / 10 ^ 4\<rparr>"

text \<open>An initial width of \<open>2\<^sup>-\<^sup>3\<^sup>4\<close>, below the ten decimals of the file.\<close>

definition ex_small_width :: params where
  "ex_small_width =
     \<lparr>q = 1, sl = 0, mn = 0, nb = 1, h = 1, jcz = 1, b0 = 1 / 2 ^ 34, n = 1, alh = 1 / 10 ^ 4\<rparr>"

text \<open>What the call on \<open>ex_unit_step\<close> writes, returns and leaves as its loop state.\<close>

definition unit_step_samples :: "(real \<times> pynum) list" where
  "unit_step_samples = [(4, PFloat 0), (5, PFloat 0)]"

definition unit_step_result :: result where
  "unit_step_result =
     \<lparr>bt = 5, qth = PFloat 0, rgt = 10 / 9, czt = PFloat ((10 / 9) powr (1 / 6)),
      cr05 = PFloat ((10 / 9) powr (1 / 6) * sqrt (10 / 9))\<rparr>"

definition unit_step_final :: loop_state where
  "unit_step_final =
     \<lparr>bt = 5, qth = PFloat 0, rgt = 10 / 9, czt = PFloat ((10 / 9) powr (1 / 6)),
      b = 6, qfb_dat = unit_step_samples\<rparr>"

section \<open>Properties\<close>

subsection \<open>What the evaluators can raise on validated arguments\<close>

lemma bindE_Inr [simp]: "bindE (Inr v) k = k v"
  by (simp add: bindE_def)

lemma bindE_Inl [simp]: "bindE (Inl e) k = Inl e"
  by (simp add: bindE_def)

lemma math_sqrt_nonneg: "0 \<le> x \<Longrightarrow> math_sqrt x = Inr (sqrt x)"
  by (simp add: math_sqrt_def)

lemma truediv_nonzero: "y \<noteq> 0 \<Longrightarrow> truediv x y = Inr (x / y)"
  by (simp add: truediv_def)

lemma spec_perimeter_pos: "0 < spec_perimeter p bb"
  by (simp add: spec_perimeter_def Let_def not_le)

lemma float_max_pos: "0 < float_max"
  by (simp add: float_max_def)

lemma float_pow_square:
  "float_pow x 2 = (if float_max < x\<^sup>2 then Inl OverflowError else Inr (PFloat (x\<^sup>2)))"
proof -
  have two: "(2::real) = of_int \<lfloor>2::real\<rfloor>" "\<lfloor>2::real\<rfloor> = 2"
    by simp_all
  consider "x = 0" | "x < 0" | "0 < x" by linarith
  then show ?thesis
  proof cases
    case 1
    then show ?thesis
      using float_max_pos by (simp add: float_pow_def)
  next
    case 2
    have "x powi 2 = x\<^sup>2"
      by (simp add: power_int_def)
    with 2 show ?thesis
      by (simp add: float_pow_def)
  next
    case 3
    then have "x powr 2 = x\<^sup>2"
      by (simp add: powr_numeral)
    with 3 show ?thesis
      by (simp add: float_pow_def)
  qed
qed

lemma geometry_ok:
  "geometry p bb =
     (if float_max < (mn p)\<^sup>2 then Inl OverflowError
      else Inr (spec_area p bb, spec_radius p bb))"
proof (cases "float_max < (mn p)\<^sup>2")
  case True
  then show ?thesis
    by (simp add: geometry_def float_pow_square Let_def)
next
  case False
  have s: "math_sqrt_num (float_add_num 1 (PFloat ((mn p)\<^sup>2))) = Inr (sqrt (1 + (mn p)\<^sup>2))"
    by (simp add: math_sqrt_num_def float_add_num_def math_sqrt_nonneg)
  have nz: "spec_perimeter p bb \<noteq> 0"
    using spec_perimeter_pos [of p bb] by simp
  show ?thesis
    using nz False
    by (simp add: geometry_def float_pow_square s Let_def spec_area_def spec_radius_def
        spec_perimeter_def truediv_def)
qed

lemma float_pow_positive_exponent:
  assumes "0 < y"
  shows "float_pow x y = Inl OverflowError
       \<or> (\<exists>v. float_pow x y = Inr v \<and> (0 \<le> x \<longrightarrow> v = PFloat (x powr y)))"
  using assms by (simp add: float_pow_def)

lemma chezy_ok:
  assumes "validated p"
  shows "chezy p rg = Inl OverflowError
       \<or> (\<exists>cz. chezy p rg = Inr cz \<and> (jcz p = 1 \<or> 0 \<le> rg \<longrightarrow> cz = PFloat (spec_chezy p rg)))"
proof -
  from assms have nbp: "0 < nb p" and j: "jcz p = 0 \<or> jcz p = 1 \<or> jcz p = 2"
    by (auto simp: validated_def)
  have s: "math_sqrt (nb p) = Inr (sqrt (nb p))"
    using nbp by (simp add: math_sqrt_nonneg)
  have d: "truediv 1 (nb p) = Inr (1 / nb p)"
    using nbp by (simp add: truediv_nonzero)
  have six: "truediv 1 6 = Inr (1 / 6)"
    by (simp add: truediv_def)
  have sp: "0 < sqrt (nb p)"
    using nbp by simp
  from j show ?thesis
  proof (elim disjE)
    assume j0: "jcz p = 0"
    define ay where "ay = (if 1 \<le> rg then 1.5 * sqrt (nb p) else 1.3 * sqrt (nb p))"
    have ayp: "0 < ay"
      using sp by (simp add: ay_def)
    have c: "chezy p rg = bindE (float_pow rg ay) (\<lambda>pw. Inr (float_mul_num (1 / nb p) pw))"
      by (simp add: chezy_def j0 s d Let_def ay_def)
    have sc: "spec_chezy p rg = (1 / nb p) * rg powr ay"
      by (simp add: spec_chezy_def j0 ay_def)
    from float_pow_positive_exponent [OF ayp, of rg] show ?thesis
    proof
      assume "float_pow rg ay = Inl OverflowError"
      then show ?thesis by (simp add: c)
    next
      assume "\<exists>v. float_pow rg ay = Inr v \<and> (0 \<le> rg \<longrightarrow> v = PFloat (rg powr ay))"
      then obtain v where v: "float_pow rg ay = Inr v" and vf: "0 \<le> rg \<longrightarrow> v = PFloat (rg powr ay)"
        by blast
      from vf show ?thesis
        by (simp add: c v float_mul_num_def sc j0)
    qed
  next
    assume j1: "jcz p = 1"
    have "math_log10 (if 1 / 10 ^ 12 < rg then rg else 1 / 10 ^ 12)
            = Inr (log 10 (max rg (1 / 10 ^ 12)))"
      by (simp add: math_log10_def max_def not_less)
    then show ?thesis
      by (simp add: chezy_def j1 d spec_chezy_def)
  next
    assume j2: "jcz p = 2"
    have c: "chezy p rg = bindE (float_pow rg (1 / 6)) (\<lambda>pw. Inr (float_mul_num (1 / nb p) pw))"
      by (simp add: chezy_def j2 d six)
    have sc: "spec_chezy p rg = (1 / nb p) * rg powr (1 / 6)"
      by (simp add: spec_chezy_def j2)
    have "float_pow rg (1 / 6) = Inl OverflowError
       \<or> (\<exists>v. float_pow rg (1 / 6) = Inr v \<and> (0 \<le> rg \<longrightarrow> v = PFloat (rg powr (1 / 6))))"
      by (rule float_pow_positive_exponent) simp
    then show ?thesis
    proof
      assume "float_pow rg (1 / 6) = Inl OverflowError"
      then show ?thesis by (simp add: c)
    next
      assume "\<exists>v. float_pow rg (1 / 6) = Inr v \<and> (0 \<le> rg \<longrightarrow> v = PFloat (rg powr (1 / 6)))"
      then obtain v where v: "float_pow rg (1 / 6) = Inr v"
        and vf: "0 \<le> rg \<longrightarrow> v = PFloat (rg powr (1 / 6))"
        by blast
      from vf show ?thesis
        by (simp add: c v float_mul_num_def sc j2)
    qed
  qed
qed

lemma discharge_ok:
  "discharge p w rg cz = Inr (num_mul_float (float_mul_num w cz) (sqrt (max (rg * sl p) 0)))"
  by (simp add: discharge_def Let_def math_sqrt_def max_def not_less)

subsection \<open>One iteration: continue, break or raise\<close>

lemma evaluate_ok:
  assumes "validated p"
  shows "evaluate p bb = Inl OverflowError
       \<or> (\<exists>cz. evaluate p bb =
            Inr (spec_area p bb, spec_radius p bb, cz,
                 num_mul_float (float_mul_num (spec_area p bb) cz)
                   (sqrt (max (spec_radius p bb * sl p) 0)))
          \<and> (jcz p = 1 \<or> 0 \<le> spec_radius p bb \<longrightarrow> cz = PFloat (spec_chezy p (spec_radius p bb))))"
proof (cases "float_max < (mn p)\<^sup>2")
  case True
  then show ?thesis
    by (simp add: evaluate_def geometry_ok)
next
  case False
  then have g: "geometry p bb = Inr (spec_area p bb, spec_radius p bb)"
    by (simp add: geometry_ok)
  from chezy_ok [OF assms, of "spec_radius p bb"] show ?thesis
  proof
    assume "chezy p (spec_radius p bb) = Inl OverflowError"
    then show ?thesis by (simp add: evaluate_def g)
  next
    assume "\<exists>cz. chezy p (spec_radius p bb) = Inr cz
      \<and> (jcz p = 1 \<or> 0 \<le> spec_radius p bb \<longrightarrow> cz = PFloat (spec_chezy p (spec_radius p bb)))"
    then obtain cz where cz: "chezy p (spec_radius p bb) = Inr cz"
      and v: "jcz p = 1 \<or> 0 \<le> spec_radius p bb \<longrightarrow> cz = PFloat (spec_chezy p (spec_radius p bb))"
      by blast
    have "evaluate p bb =
          Inr (spec_area p bb, spec_radius p bb, cz,
               num_mul_float (float_mul_num (spec_area p bb) cz)
                 (sqrt (max (spec_radius p bb * sl p) 0)))"
      by (simp add: evaluate_def g cz discharge_ok)
    with v show ?thesis by blast
  qed
qed

lemma evaluate_raises:
  assumes "validated p" and "evaluate p bb = Inl e"
  shows "e = OverflowError"
  using evaluate_ok [OF assms(1), of bb] assms(2) by auto

lemma evaluate_float_cz:
  assumes "validated p" and "evaluate p bb = Inr (w, rg, cz, PFloat x)"
  shows "\<exists>c. cz = PFloat c"
proof -
  from evaluate_ok [OF assms(1), of bb] assms(2)
  have "num_mul_float (float_mul_num w cz) (sqrt (max (rg * sl p) 0)) = PFloat x"
    by auto
  then show ?thesis
    by (cases cz) (simp_all add: num_mul_float_def float_mul_num_def)
qed

lemma loop_body_float:
  assumes "evaluate p (b st) = Inr (w, rg, cz, PFloat x)"
  shows "loop_body p st =
           (let st1 = st\<lparr>qfb_dat := qfb_dat st @ [(b st, PFloat x)]\<rparr>;
                st2 = (if x \<le> q p then st1\<lparr>bt := b st, qth := PFloat x, rgt := rg, czt := cz\<rparr> else st1)
            in if x < 1.2 * q p then Continue (st2\<lparr>b := b st + alh p\<rparr>) else Break st2)"
  by (simp add: loop_body_def assms num_le_float_def num_lt_float_def Let_def)

lemma loop_body_complex:
  assumes "evaluate p (b st) = Inr (w, rg, cz, PComplex z)"
  shows "loop_body p st = Raise TypeError (st\<lparr>qfb_dat := qfb_dat st @ [(b st, PComplex z)]\<rparr>)"
  by (simp add: loop_body_def assms num_le_float_def Let_def)

lemma loop_body_error:
  assumes "evaluate p (b st) = Inl e"
  shows "loop_body p st = Raise e st"
  by (simp add: loop_body_def assms)

lemma loop_body_Continue:
  assumes "loop_body p st = Continue st1"
  shows "\<exists>w rg cz x. evaluate p (b st) = Inr (w, rg, cz, PFloat x) \<and> x < 1.2 * q p
            \<and> qfb_dat st1 = qfb_dat st @ [(b st, PFloat x)] \<and> b st1 = b st + alh p
            \<and> (if x \<le> q p then bt st1 = b st \<and> qth st1 = PFloat x \<and> rgt st1 = rg \<and> czt st1 = cz
                else bt st1 = bt st \<and> qth st1 = qth st \<and> rgt st1 = rgt st \<and> czt st1 = czt st)"
proof (cases "evaluate p (b st)")
  case (Inl e)
  with assms show ?thesis by (simp add: loop_body_def)
next
  case (Inr t)
  then obtain w rg cz qt where ev: "evaluate p (b st) = Inr (w, rg, cz, qt)"
    by (cases t) auto
  show ?thesis
  proof (cases qt)
    case (PFloat x)
    with ev assms show ?thesis
      by (auto simp: loop_body_float Let_def split: if_splits)
  next
    case (PComplex z)
    with ev assms show ?thesis
      by (simp add: loop_body_complex)
  qed
qed

lemma loop_body_Break:
  assumes "loop_body p st = Break st1"
  shows "\<exists>w rg cz x. evaluate p (b st) = Inr (w, rg, cz, PFloat x) \<and> \<not> x < 1.2 * q p
            \<and> qfb_dat st1 = qfb_dat st @ [(b st, PFloat x)] \<and> b st1 = b st
            \<and> (if x \<le> q p then bt st1 = b st \<and> qth st1 = PFloat x \<and> rgt st1 = rg \<and> czt st1 = cz
                else bt st1 = bt st \<and> qth st1 = qth st \<and> rgt st1 = rgt st \<and> czt st1 = czt st)"
proof (cases "evaluate p (b st)")
  case (Inl e)
  with assms show ?thesis by (simp add: loop_body_def)
next
  case (Inr t)
  then obtain w rg cz qt where ev: "evaluate p (b st) = Inr (w, rg, cz, qt)"
    by (cases t) auto
  show ?thesis
  proof (cases qt)
    case (PFloat x)
    with ev assms show ?thesis
      by (auto simp: loop_body_float Let_def split: if_splits)
  next
    case (PComplex z)
    with ev assms show ?thesis
      by (simp add: loop_body_complex)
  qed
qed

lemma loop_body_Raise:
  assumes "validated p" and "loop_body p st = Raise e st1"
  shows "(e = OverflowError \<and> evaluate p (b st) = Inl OverflowError \<and> st1 = st)
       \<or> (e = TypeError \<and> (\<exists>w rg cz z. evaluate p (b st) = Inr (w, rg, cz, PComplex z)
            \<and> qfb_dat st1 = qfb_dat st @ [(b st, PComplex z)] \<and> b st1 = b st))"
proof (cases "evaluate p (b st)")
  case (Inl e')
  with evaluate_raises [OF assms(1)] have "evaluate p (b st) = Inl OverflowError"
    by simp
  with assms(2) show ?thesis
    by (simp add: loop_body_error)
next
  case (Inr t)
  then obtain w rg cz qt where ev: "evaluate p (b st) = Inr (w, rg, cz, qt)"
    by (cases t) auto
  show ?thesis
  proof (cases qt)
    case (PFloat x)
    with ev assms(2) show ?thesis
      by (auto simp: loop_body_float Let_def split: if_splits)
  next
    case (PComplex z)
    with ev assms(2) show ?thesis
      by (auto simp: loop_body_complex)
  qed
qed

subsection \<open>The recorded samples\<close>

lemma for_range_shape:
  "for_range p k st = (e, st') \<Longrightarrow>
     \<exists>new. qfb_dat st' = qfb_dat st @ new \<and> length new \<le> k
        \<and> (\<forall>i<length new. fst (new ! i) = b st + real i * alh p)"
proof (induction k arbitrary: st)
  case 0
  then show ?case by simp
next
  case (Suc k)
  show ?case
  proof (cases "loop_body p st")
    case (Continue st1)
    from loop_body_Continue [OF Continue] obtain x
      where f1: "qfb_dat st1 = qfb_dat st @ [(b st, PFloat x)]" and b1: "b st1 = b st + alh p"
      by blast
    from Suc.prems Continue have "for_range p k st1 = (e, st')" by simp
    from Suc.IH [OF this] obtain new
      where n1: "qfb_dat st' = qfb_dat st1 @ new" and n2: "length new \<le> k"
        and n3: "\<forall>i<length new. fst (new ! i) = b st1 + real i * alh p"
      by blast
    have "\<forall>i<length ((b st, PFloat x) # new).
            fst (((b st, PFloat x) # new) ! i) = b st + real i * alh p"
      using n3 b1 by (auto simp: less_Suc_eq_0_disj algebra_simps)
    moreover have "qfb_dat st' = qfb_dat st @ ((b st, PFloat x) # new)"
      using n1 f1 by simp
    moreover have "length ((b st, PFloat x) # new) \<le> Suc k"
      using n2 by simp
    ultimately show ?thesis by blast
  next
    case (Break st1)
    from loop_body_Break [OF Break] obtain x
      where f1: "qfb_dat st1 = qfb_dat st @ [(b st, PFloat x)]"
      by blast
    from Suc.prems Break have "st' = st1" by simp
    with f1 have "qfb_dat st' = qfb_dat st @ [(b st, PFloat x)]" by simp
    moreover have "\<forall>i<length [(b st, PFloat x)]. fst ([(b st, PFloat x)] ! i) = b st + real i * alh p"
      by simp
    ultimately show ?thesis
      by (metis length_Cons list.size(3) Suc_le_mono le0)
  next
    case (Raise e1 st1)
    from Suc.prems Raise have s: "st' = st1" by simp
    show ?thesis
    proof (cases "evaluate p (b st)")
      case (Inl e2)
      with Raise have "st1 = st" by (simp add: loop_body_def)
      with s have "qfb_dat st' = qfb_dat st @ []" by simp
      then show ?thesis by (metis le0 list.size(3) not_less_zero)
    next
      case (Inr t)
      then obtain w rg cz qt where ev: "evaluate p (b st) = Inr (w, rg, cz, qt)"
        by (cases t) auto
      have "qfb_dat st1 = qfb_dat st @ [(b st, qt)]"
      proof (cases qt)
        case (PFloat x)
        with ev Raise show ?thesis
          by (auto simp: loop_body_float Let_def split: if_splits)
      next
        case (PComplex z)
        with ev Raise show ?thesis
          by (auto simp: loop_body_complex)
      qed
      with s have "qfb_dat st' = qfb_dat st @ [(b st, qt)]" by simp
      moreover have "\<forall>i<length [(b st, qt)]. fst ([(b st, qt)] ! i) = b st + real i * alh p"
        by simp
      ultimately show ?thesis
        by (metis length_Cons list.size(3) Suc_le_mono le0)
    qed
  qed
qed

subsection \<open>The tracked best and the exhausted step budget\<close>

lemma select_last_Nil: "select_last qq [] = None"
  by (simp add: select_last_def)

lemma select_last_Cons:
  "select_last qq (s # xs) =
     (case select_last qq xs of
        Some y \<Rightarrow> Some y
      | None \<Rightarrow> if within_target qq s then Some s else None)"
  by (simp add: select_last_def split: list.splits)

lemma for_range_best:
  "for_range p k st = (None, st') \<Longrightarrow>
     \<exists>new. qfb_dat st' = qfb_dat st @ new
        \<and> (case select_last (q p) new of
              None \<Rightarrow> bt st' = bt st \<and> qth st' = qth st \<and> rgt st' = rgt st \<and> czt st' = czt st
            | Some (bb, qt) \<Rightarrow>
                bt st' = bb \<and> qth st' = qt \<and> (\<exists>w. evaluate p bb = Inr (w, rgt st', czt st', qt)))"
proof (induction k arbitrary: st)
  case 0
  then have "qfb_dat st' = qfb_dat st @ []" by simp
  moreover have "select_last (q p) [] = None" by (rule select_last_Nil)
  ultimately show ?case using 0 by force
next
  case (Suc k)
  show ?case
  proof (cases "loop_body p st")
    case (Continue st1)
    from loop_body_Continue [OF Continue] obtain w rg cz x
      where ev: "evaluate p (b st) = Inr (w, rg, cz, PFloat x)"
        and f1: "qfb_dat st1 = qfb_dat st @ [(b st, PFloat x)]"
        and u: "if x \<le> q p then bt st1 = b st \<and> qth st1 = PFloat x \<and> rgt st1 = rg \<and> czt st1 = cz
                else bt st1 = bt st \<and> qth st1 = qth st \<and> rgt st1 = rgt st \<and> czt st1 = czt st"
      by blast
    from Suc.prems Continue have "for_range p k st1 = (None, st')" by simp
    from Suc.IH [OF this] obtain new
      where n1: "qfb_dat st' = qfb_dat st1 @ new"
        and n2: "case select_last (q p) new of
              None \<Rightarrow> bt st' = bt st1 \<and> qth st' = qth st1 \<and> rgt st' = rgt st1 \<and> czt st' = czt st1
            | Some (bb, qt) \<Rightarrow>
                bt st' = bb \<and> qth st' = qt \<and> (\<exists>w. evaluate p bb = Inr (w, rgt st', czt st', qt))"
      by blast
    have a: "qfb_dat st' = qfb_dat st @ ((b st, PFloat x) # new)"
      using n1 f1 by simp
    have "case select_last (q p) ((b st, PFloat x) # new) of
              None \<Rightarrow> bt st' = bt st \<and> qth st' = qth st \<and> rgt st' = rgt st \<and> czt st' = czt st
            | Some (bb, qt) \<Rightarrow>
                bt st' = bb \<and> qth st' = qt \<and> (\<exists>w. evaluate p bb = Inr (w, rgt st', czt st', qt))"
    proof (cases "select_last (q p) new")
      case (Some y)
      with n2 show ?thesis by (simp add: select_last_Cons)
    next
      case None
      with n2 u ev show ?thesis
        by (auto simp: select_last_Cons within_target_def)
    qed
    with a show ?thesis by blast
  next
    case (Break st1)
    from loop_body_Break [OF Break] obtain w rg cz x
      where ev: "evaluate p (b st) = Inr (w, rg, cz, PFloat x)"
        and f1: "qfb_dat st1 = qfb_dat st @ [(b st, PFloat x)]"
        and u: "if x \<le> q p then bt st1 = b st \<and> qth st1 = PFloat x \<and> rgt st1 = rg \<and> czt st1 = cz
                else bt st1 = bt st \<and> qth st1 = qth st \<and> rgt st1 = rgt st \<and> czt st1 = czt st"
      by blast
    from Suc.prems Break have s: "st' = st1" by simp
    have a: "qfb_dat st' = qfb_dat st @ [(b st, PFloat x)]"
      using s f1 by simp
    have "case select_last (q p) [(b st, PFloat x)] of
              None \<Rightarrow> bt st' = bt st \<and> qth st' = qth st \<and> rgt st' = rgt st \<and> czt st' = czt st
            | Some (bb, qt) \<Rightarrow>
                bt st' = bb \<and> qth st' = qt \<and> (\<exists>w. evaluate p bb = Inr (w, rgt st', czt st', qt))"
      using u ev s by (auto simp: select_last_Cons select_last_Nil within_target_def)
    with a show ?thesis by blast
  next
    case (Raise e1 st1)
    with Suc.prems show ?thesis by simp
  qed
qed

lemma for_range_full:
  "\<forall>i<k. \<exists>w rg cz x. evaluate p (b st + real i * alh p) = Inr (w, rg, cz, PFloat x) \<and> x < 1.2 * q p
     \<Longrightarrow> \<exists>st'. for_range p k st = (None, st') \<and> length (qfb_dat st') = length (qfb_dat st) + k"
proof (induction k arbitrary: st)
  case 0
  then show ?case by simp
next
  case (Suc k)
  from Suc.prems have "\<exists>w rg cz x. evaluate p (b st + real (0::nat) * alh p) = Inr (w, rg, cz, PFloat x) \<and> x < 1.2 * q p"
    by blast
  then obtain w rg cz x where ev: "evaluate p (b st) = Inr (w, rg, cz, PFloat x)" and lt: "x < 1.2 * q p"
    by auto
  from loop_body_float [OF ev] lt obtain st1 where c: "loop_body p st = Continue st1"
    by (simp add: Let_def)
  from loop_body_Continue [OF c]
  have f1: "length (qfb_dat st1) = Suc (length (qfb_dat st))" and b1: "b st1 = b st + alh p"
    by auto
  have "\<forall>i<k. \<exists>w rg cz x. evaluate p (b st1 + real i * alh p) = Inr (w, rg, cz, PFloat x) \<and> x < 1.2 * q p"
  proof (intro allI impI)
    fix i assume "i < k"
    then have "Suc i < Suc k" by simp
    with Suc.prems
    have "\<exists>w rg cz x. evaluate p (b st + real (Suc i) * alh p) = Inr (w, rg, cz, PFloat x) \<and> x < 1.2 * q p"
      by blast
    moreover have "b st + real (Suc i) * alh p = b st1 + real i * alh p"
      by (simp add: b1 algebra_simps)
    ultimately show "\<exists>w rg cz x. evaluate p (b st1 + real i * alh p) = Inr (w, rg, cz, PFloat x) \<and> x < 1.2 * q p"
      by simp
  qed
  from Suc.IH [OF this] obtain st' where "for_range p k st1 = (None, st')"
    and "length (qfb_dat st') = length (qfb_dat st1) + k"
    by blast
  with c f1 show ?case by simp
qed

subsection \<open>Validation\<close>

text \<open>
  C2: when \<open>nb \<le> 0\<close>, or \<open>h \<le> 0\<close>, or \<open>sl < 0\<close>, or \<open>jcz\<close> is not 0, 1 or 2,
  \<^verbatim>\<open>compute_channel\<close> raises a \<^verbatim>\<open>ValueError\<close> with a message, before the file is opened:
  no sample is written and no file is produced.
\<close>

theorem validation_rejects:
  assumes "nb p \<le> 0 \<or> h p \<le> 0 \<or> sl p < 0 \<or> jcz p \<notin> {0, 1, 2}"
  shows "\<exists>msg. msg \<noteq> [] \<and> compute_channel p = (None, Inl (ValueError msg))"
  using assms by (auto simp: compute_channel_def)

theorem validation_rejects_witness:
  "(nb ex_selector3 \<le> 0 \<or> h ex_selector3 \<le> 0 \<or> sl ex_selector3 < 0 \<or> jcz ex_selector3 \<notin> {0, 1, 2})
   \<and> (\<exists>msg. msg \<noteq> [] \<and> compute_channel ex_selector3 = (None, Inl (ValueError msg)))"
  using validation_rejects [of ex_selector3] by (simp add: ex_selector3_def)

subsection \<open>How the loop can end in an exception\<close>

lemma for_range_raises:
  assumes "validated p"
  shows "for_range p k st = (Some e, st') \<Longrightarrow> e = TypeError \<or> e = OverflowError"
proof (induction k arbitrary: st)
  case 0
  then show ?case by simp
next
  case (Suc k)
  show ?case
  proof (cases "loop_body p st")
    case (Continue st1)
    with Suc.prems have "for_range p k st1 = (Some e, st')" by simp
    then show ?thesis by (rule Suc.IH)
  next
    case (Break st1)
    with Suc.prems show ?thesis by simp
  next
    case (Raise e1 st1)
    with Suc.prems have "e1 = e" by simp
    with loop_body_Raise [OF assms Raise] show ?thesis by blast
  qed
qed

lemma for_range_first:
  assumes "validated p" and "for_range p (Suc k) st = (e, st')"
  shows "(e = Some OverflowError \<and> evaluate p (b st) = Inl OverflowError \<and> st' = st)
       \<or> (\<exists>new. qfb_dat st' = qfb_dat st @ new \<and> new \<noteq> [] \<and> fst (hd new) = b st)"
proof (cases "loop_body p st")
  case (Continue st1)
  from loop_body_Continue [OF Continue] obtain x
    where f1: "qfb_dat st1 = qfb_dat st @ [(b st, PFloat x)]"
    by blast
  from assms(2) Continue have "for_range p k st1 = (e, st')" by simp
  from for_range_shape [OF this] obtain new where "qfb_dat st' = qfb_dat st1 @ new"
    by blast
  with f1 have "qfb_dat st' = qfb_dat st @ ((b st, PFloat x) # new)" by simp
  moreover have "fst (hd ((b st, PFloat x) # new)) = b st" by simp
  ultimately show ?thesis by blast
next
  case (Break st1)
  from loop_body_Break [OF Break] obtain x
    where f1: "qfb_dat st1 = qfb_dat st @ [(b st, PFloat x)]"
    by blast
  from assms(2) Break have "st' = st1" by simp
  with f1 have "qfb_dat st' = qfb_dat st @ [(b st, PFloat x)]" by simp
  moreover have "fst (hd [(b st, PFloat x)]) = b st" by simp
  ultimately show ?thesis by blast
next
  case (Raise e1 st1)
  from assms(2) Raise have s: "st' = st1" "e = Some e1" by simp_all
  from loop_body_Raise [OF assms(1) Raise] show ?thesis
  proof
    assume "e1 = OverflowError \<and> evaluate p (b st) = Inl OverflowError \<and> st1 = st"
    with s show ?thesis by simp
  next
    assume "e1 = TypeError \<and> (\<exists>w rg cz z. evaluate p (b st) = Inr (w, rg, cz, PComplex z)
            \<and> qfb_dat st1 = qfb_dat st @ [(b st, PComplex z)] \<and> b st1 = b st)"
    then obtain z where "qfb_dat st1 = qfb_dat st @ [(b st, PComplex z)]"
      by blast
    with s have "qfb_dat st' = qfb_dat st @ [(b st, PComplex z)]" by simp
    moreover have "fst (hd [(b st, PComplex z)]) = b st" by simp
    ultimately show ?thesis by blast
  qed
qed

subsection \<open>Selection, and what a call returns\<close>

lemma select_last_None_iff:
  "select_last qq xs = None \<longleftrightarrow> (\<forall>s\<in>set xs. \<not> within_target qq s)"
proof -
  have "select_last qq xs = None \<longleftrightarrow> filter (within_target qq) xs = []"
    by (simp add: select_last_def split: list.splits)
  then show ?thesis
    by (simp add: filter_empty_conv)
qed

lemma select_last_Some_index:
  "select_last qq xs = Some y \<Longrightarrow>
     \<exists>i<length xs. xs ! i = y \<and> within_target qq y
        \<and> (\<forall>j<length xs. within_target qq (xs ! j) \<longrightarrow> j \<le> i)"
proof (induction xs)
  case Nil
  then show ?case by (simp add: select_last_Nil)
next
  case (Cons s xs)
  show ?case
  proof (cases "select_last qq xs")
    case None
    with Cons.prems have y: "within_target qq s" "y = s"
      by (auto simp: select_last_Cons split: if_splits)
    from None have "\<forall>j<length xs. \<not> within_target qq (xs ! j)"
      by (simp add: select_last_None_iff)
    then have "\<forall>j<length (s # xs). within_target qq ((s # xs) ! j) \<longrightarrow> j \<le> 0"
      by (auto simp: less_Suc_eq_0_disj)
    with y show ?thesis by auto
  next
    case (Some y')
    with Cons.prems have "y' = y" by (simp add: select_last_Cons)
    with Some Cons.IH obtain i where i: "i < length xs" "xs ! i = y" "within_target qq y"
      "\<forall>j<length xs. within_target qq (xs ! j) \<longrightarrow> j \<le> i"
      by blast
    then have "\<forall>j<length (s # xs). within_target qq ((s # xs) ! j) \<longrightarrow> j \<le> Suc i"
      by (auto simp: less_Suc_eq_0_disj)
    moreover have "Suc i < length (s # xs)" "(s # xs) ! Suc i = y"
      using i by simp_all
    ultimately show ?thesis using i(3) by blast
  qed
qed

lemma validated_iff:
  "validated p \<longleftrightarrow> \<not> (nb p \<le> 0 \<or> h p \<le> 0 \<or> sl p < 0 \<or> jcz p \<notin> {0, 1, 2})"
  by (auto simp: validated_def)

lemma make_result_eq:
  "make_result st =
     Inr \<lparr>bt = bt st, qth = qth st, rgt = rgt st, czt = czt st,
          cr05 = num_mul_float (czt st) (sqrt (if rgt st > 0 then rgt st else 0))\<rparr>"
  by (simp add: make_result_def math_sqrt_def)

lemma compute_channel_validated:
  assumes "validated p"
  shows "compute_channel p =
           (case for_range p (nat (n p)) (init_state p) of
              (Some e, st) \<Rightarrow> (Some (qfb_dat st), Inl e)
            | (None, st) \<Rightarrow> (Some (qfb_dat st), make_result st))"
  using assms by (simp add: compute_channel_def validated_def)

lemma compute_channel_opened:
  assumes "fst (compute_channel p) = Some xs"
  shows "validated p"
  using assms by (auto simp: compute_channel_def validated_def split: if_splits)

lemma compute_channel_file:
  assumes "validated p" and "for_range p (nat (n p)) (init_state p) = (e, st)"
  shows "fst (compute_channel p) = Some (qfb_dat st)"
  using assms by (cases e) (simp_all add: compute_channel_validated)

lemma compute_channel_returns:
  assumes "compute_channel p = (Some xs, Inr r)"
  shows "validated p \<and> (\<exists>st. for_range p (nat (n p)) (init_state p) = (None, st)
            \<and> xs = qfb_dat st \<and> make_result st = Inr r)"
proof -
  from assms have v: "validated p"
    by (simp add: compute_channel_opened)
  obtain e st where r: "for_range p (nat (n p)) (init_state p) = (e, st)"
    by (cases "for_range p (nat (n p)) (init_state p)")
  with assms v show ?thesis
    by (cases e) (simp_all add: compute_channel_validated)
qed

lemma init_state_simps [simp]:
  "bt (init_state p) = 0" "qth (init_state p) = PFloat 0" "rgt (init_state p) = 0"
  "czt (init_state p) = PFloat 0" "b (init_state p) = b0 p" "qfb_dat (init_state p) = []"
  by (simp_all add: init_state_def)

lemma run_replay:
  assumes "for_range p (nat (n p)) (init_state p) = (None, st)"
  shows "replay p (qfb_dat st) = make_result st"
proof -
  from for_range_best [OF assms]
  have c: "case select_last (q p) (qfb_dat st) of
              None \<Rightarrow> bt st = 0 \<and> qth st = PFloat 0 \<and> rgt st = 0 \<and> czt st = PFloat 0
            | Some (bb, qt) \<Rightarrow>
                bt st = bb \<and> qth st = qt \<and> (\<exists>w. evaluate p bb = Inr (w, rgt st, czt st, qt))"
    by (auto split: option.splits)
  show ?thesis
  proof (cases "select_last (q p) (qfb_dat st)")
    case None
    with c show ?thesis
      by (simp add: replay_def make_result_eq zero_result_def num_mul_float_def)
  next
    case (Some y)
    obtain bb qt where y: "y = (bb, qt)" by (cases y)
    with c Some obtain w where "bt st = bb" "qth st = qt" "evaluate p bb = Inr (w, rgt st, czt st, qt)"
      by auto
    with Some y show ?thesis
      by (simp add: replay_def make_result_eq math_sqrt_def)
  qed
qed

subsection \<open>Replay\<close>

text \<open>
  C9, as amended: for validated arguments, when the call returns a record, replaying the
  pairs \<^verbatim>\<open>(b, qt)\<close> it has written, as they were passed to the format of line 55 (select
  the last one whose discharge is not above \<open>q\<close>, compute the hydraulic radius and the
  coefficient again at that width), gives exactly that record. Nothing is said of a
  replay of the ten-decimal text of the file.
\<close>

theorem replay_reproduces_result:
  assumes "validated p" and "compute_channel p = (Some xs, Inr r)"
  shows "replay p xs = Inr r"
proof -
  from compute_channel_returns [OF assms(2)] obtain st
    where "for_range p (nat (n p)) (init_state p) = (None, st)"
      and "xs = qfb_dat st" and "make_result st = Inr r"
    by blast
  then show ?thesis
    using run_replay [of p st] by simp
qed

subsection \<open>Sample widths\<close>





subsection \<open>Runs on concrete arguments\<close>

lemmas py_ops = math_sqrt_def truediv_def math_log10_def float_pow_def float_mul_num_def
  num_mul_float_def num_le_float_def num_lt_float_def float_add_num_def math_sqrt_num_def

lemmas body_defs = loop_body_def evaluate_def geometry_def chezy_def discharge_def

lemma float_max_ge: "x \<le> 2 \<Longrightarrow> \<not> float_max < x"
proof -
  have "(2::real) \<le> float_max"
    by (simp add: float_max_def)
  then show "x \<le> 2 \<Longrightarrow> \<not> float_max < x"
    by simp
qed

lemma small_powr:
  assumes "0 < x" and "x \<le> 2" and "0 \<le> y" and "y \<le> 1"
  shows "\<not> float_max < x powr y"
proof -
  have "x powr y \<le> 2"
  proof (cases "x \<le> 1")
    case True
    with assms have "x powr y \<le> 1"
      by (simp add: powr_le1)
    then show ?thesis by simp
  next
    case False
    with assms have "x powr y \<le> x powr 1"
      by (intro powr_mono) simp_all
    with assms show ?thesis by simp
  qed
  then show ?thesis
    by (rule float_max_ge)
qed

lemma small_powr_1: "\<not> float_max < 1"
  by (rule float_max_ge) simp

lemma small_powr_10_9: "\<not> float_max < (10 / 9) powr (1 / 6)"
  by (rule small_powr) simp_all

lemma small_powr_6_7: "\<not> float_max < (6 / 7) powr (1 / 6)"
  by (rule small_powr) simp_all

lemmas small_powrs = small_powr_1 small_powr_10_9 small_powr_6_7

lemma run_unit_step:
  "compute_channel ex_unit_step = (Some unit_step_samples, Inr unit_step_result)"
  by (simp add: compute_channel_def init_state_def make_result_def ex_unit_step_def
      unit_step_samples_def unit_step_result_def numeral_2_eq_2 body_defs py_ops small_powrs Let_def)

lemma loop_unit_step:
  "for_range ex_unit_step (nat (n ex_unit_step)) (init_state ex_unit_step) = (None, unit_step_final)"
  by (simp add: init_state_def ex_unit_step_def unit_step_final_def unit_step_samples_def
      numeral_2_eq_2 body_defs py_ops small_powrs Let_def)

lemma validated_unit_step: "validated ex_unit_step"
  by (simp add: validated_def ex_unit_step_def)

lemma eval_unit_step_4: "evaluate ex_unit_step 4 = Inr (8, 1, PFloat 1, PFloat 0)"
  by (simp add: ex_unit_step_def body_defs py_ops small_powrs Let_def)

lemma eval_unit_step_5:
  "evaluate ex_unit_step 5 = Inr (10, 10 / 9, PFloat ((10 / 9) powr (1 / 6)), PFloat 0)"
  by (simp add: ex_unit_step_def body_defs py_ops small_powrs Let_def)

lemma run_negative_step:
  "compute_channel ex_negative_step =
     (Some [(4, PFloat 0), (3, PFloat 0)],
      Inr \<lparr>bt = 3, qth = PFloat 0, rgt = 6 / 7, czt = PFloat ((6 / 7) powr (1 / 6)),
           cr05 = PFloat ((6 / 7) powr (1 / 6) * sqrt (6 / 7))\<rparr>)"
  by (simp add: compute_channel_def init_state_def make_result_def ex_negative_step_def
      numeral_2_eq_2 body_defs py_ops small_powrs Let_def)


lemma run_zero_target:
  "compute_channel ex_zero_target =
     (Some [(4, PFloat 0)],
      Inr \<lparr>bt = 4, qth = PFloat 0, rgt = 1, czt = PFloat 1, cr05 = PFloat 1\<rparr>)"
  by (simp add: compute_channel_def init_state_def make_result_def ex_zero_target_def
      numeral_2_eq_2 body_defs py_ops small_powrs Let_def)

lemma eval_zero_target_4: "evaluate ex_zero_target 4 = Inr (8, 1, PFloat 1, PFloat 0)"
  by (simp add: ex_zero_target_def body_defs py_ops small_powrs Let_def)

lemma eval_zero_target_5:
  "evaluate ex_zero_target 5 = Inr (10, 10 / 9, PFloat ((10 / 9) powr (1 / 6)), PFloat 0)"
  by (simp add: ex_zero_target_def body_defs py_ops small_powrs Let_def)

lemma log10_epsilon: "log 10 (1 / 10 ^ 12) = - 12"
proof -
  have "log 10 ((10::real) ^ 12) = real 12"
    by (rule log_pow_cancel) simp_all
  then show ?thesis
    by (simp add: log_recip)
qed

lemma run_negative_width_agroskin:
  "compute_channel ex_negative_width_agroskin =
     (Some [(- 1, PFloat 0)],
      Inr \<lparr>bt = - 1, qth = PFloat 0, rgt = - 1, czt = PFloat (- 211.64), cr05 = PFloat 0\<rparr>)"
  using log10_epsilon
  by (simp add: compute_channel_def init_state_def make_result_def ex_negative_width_agroskin_def
      body_defs py_ops Let_def)

lemma eval_negative_width_manning:
  "evaluate ex_negative_width_manning (- 1) = Inr (- 1, - 1, PComplex (cis (pi / 6)), PComplex 0)"
  by (simp add: ex_negative_width_manning_def body_defs py_ops small_powrs Let_def)

lemma run_negative_width_manning:
  "compute_channel ex_negative_width_manning = (Some [(- 1, PComplex 0)], Inl TypeError)"
  by (simp add: compute_channel_def init_state_def ex_negative_width_manning_def
      body_defs py_ops small_powrs Let_def)

lemma loop_negative_width_two_steps:
  "for_range ex_negative_width_two_steps (nat (n ex_negative_width_two_steps))
       (init_state ex_negative_width_two_steps) =
     (Some TypeError,
      \<lparr>bt = 0, qth = PFloat 0, rgt = 0, czt = PFloat 0, b = - 1, qfb_dat = [(- 1, PComplex 0)]\<rparr>)"
  by (simp add: init_state_def ex_negative_width_two_steps_def numeral_2_eq_2
      body_defs py_ops small_powrs Let_def)

lemma run_negative_width_two_steps:
  "compute_channel ex_negative_width_two_steps = (Some [(- 1, PComplex 0)], Inl TypeError)"
  by (simp add: compute_channel_def init_state_def ex_negative_width_two_steps_def numeral_2_eq_2
      body_defs py_ops small_powrs Let_def)


lemma run_quarter_slope:
  "compute_channel ex_quarter_slope = (Some [(4, PFloat 4)], Inr zero_result)"
proof -
  have "sqrt (1 / 4) = 1 / 2"
    by (simp add: real_sqrt_divide)
  then show ?thesis
    by (simp add: compute_channel_def init_state_def make_result_def ex_quarter_slope_def
        zero_result_def body_defs py_ops small_powrs Let_def)
qed

lemma steep_banks_overflow: "float_max < (mn ex_steep_banks)\<^sup>2"
proof -
  have "float_max < 2 ^ 1024"
    by (simp add: float_max_def)
  also have "(2::real) ^ 1024 \<le> 10 ^ 400"
    by simp
  finally show ?thesis
    by (simp add: ex_steep_banks_def)
qed

lemma run_steep_banks:
  "compute_channel ex_steep_banks = (Some [], Inl OverflowError)"
proof -
  have "evaluate ex_steep_banks (b0 ex_steep_banks) = Inl OverflowError"
    using steep_banks_overflow by (simp add: evaluate_def geometry_ok)
  then have "loop_body ex_steep_banks (init_state ex_steep_banks)
               = Raise OverflowError (init_state ex_steep_banks)"
    by (simp add: loop_body_error)
  moreover have "validated ex_steep_banks" "nat (n ex_steep_banks) = Suc 0"
    by (simp_all add: validated_def ex_steep_banks_def)
  ultimately show ?thesis
    by (simp add: compute_channel_validated)
qed

subsection \<open>The returned record\<close>

lemma run_result_fields:
  assumes "make_result st = Inr r"
  shows "bt r = bt st" "qth r = qth st" "rgt r = rgt st" "czt r = czt st"
    "cr05 r = num_mul_float (czt st) (sqrt (if rgt st > 0 then rgt st else 0))"
  using assms by (auto simp: make_result_eq)

text \<open>
  C1, as amended: when the call returns a record and some written sample has a discharge
  not above \<open>q\<close>, the record holds the last such sample: its width and discharge, with
  the hydraulic radius and the coefficient the evaluation gives at that width. When
  \<open>alh\<close> is not negative, no sample within the target has a larger width.
\<close>

theorem returns_last_within_target:
  assumes "compute_channel p = (Some xs, Inr r)"
    and "\<exists>s\<in>set xs. within_target (q p) s"
  shows "\<exists>i<length xs. xs ! i = (bt r, qth r) \<and> within_target (q p) (bt r, qth r)
           \<and> (\<forall>j<length xs. within_target (q p) (xs ! j) \<longrightarrow> j \<le> i)
           \<and> (\<exists>w. evaluate p (bt r) = Inr (w, rgt r, czt r, qth r))
           \<and> (0 \<le> alh p \<longrightarrow> (\<forall>s\<in>set xs. within_target (q p) s \<longrightarrow> fst s \<le> bt r))"
proof -
  from compute_channel_returns [OF assms(1)] obtain st
    where run: "for_range p (nat (n p)) (init_state p) = (None, st)"
      and xs: "xs = qfb_dat st" and res: "make_result st = Inr r"
    by blast
  from assms(2) obtain y where sel: "select_last (q p) xs = Some y"
    using select_last_None_iff [of "q p" xs] by (cases "select_last (q p) xs") auto
  obtain bb qt where y: "y = (bb, qt)" by (cases y)
  from for_range_best [OF run] sel y xs obtain w
    where best: "bt st = bb" "qth st = qt" "evaluate p bb = Inr (w, rgt st, czt st, qt)"
    by auto
  from run_result_fields [OF res] best
  have r: "bt r = bb" "qth r = qt" "evaluate p (bt r) = Inr (w, rgt r, czt r, qth r)"
    by simp_all
  from select_last_Some_index [OF sel] y r obtain i
    where i: "i < length xs" "xs ! i = (bt r, qth r)" "within_target (q p) (bt r, qth r)"
      "\<forall>j<length xs. within_target (q p) (xs ! j) \<longrightarrow> j \<le> i"
    by auto
  from for_range_shape [OF run] xs
  have w: "\<forall>j<length xs. fst (xs ! j) = b0 p + real j * alh p"
    by simp
  have "fst s \<le> bt r" if pos: "0 \<le> alh p" and s: "s \<in> set xs" "within_target (q p) s" for s
  proof -
    from s(1) obtain j where j: "j < length xs" "xs ! j = s"
      by (auto simp: in_set_conv_nth)
    with s(2) i(4) have "j \<le> i" by auto
    then have "real j * alh p \<le> real i * alh p"
      using pos by (simp add: mult_right_mono)
    moreover from w j have "fst s = b0 p + real j * alh p" by auto
    moreover from w i(1,2) have "bt r = b0 p + real i * alh p" by auto
    ultimately show ?thesis by simp
  qed
  with i r(3) show ?thesis by blast
qed

text \<open>
  C8, as amended: in every returned record \<open>czt\<close> is a float and
  \<open>cr05 = czt * sqrt (max rgt 0)\<close>, which is \<open>czt * sqrt rgt\<close> whenever \<open>rgt\<close> is not
  negative.
\<close>

theorem cr05_value:
  assumes "compute_channel p = (Some xs, Inr r)"
  shows "\<exists>c. czt r = PFloat c \<and> cr05 r = PFloat (c * sqrt (max (rgt r) 0))
           \<and> (0 \<le> rgt r \<longrightarrow> cr05 r = PFloat (c * sqrt (rgt r)))"
proof -
  from compute_channel_returns [OF assms] obtain st
    where v: "validated p" and run: "for_range p (nat (n p)) (init_state p) = (None, st)"
      and xs: "xs = qfb_dat st" and res: "make_result st = Inr r"
    by blast
  have "\<exists>c. czt st = PFloat c"
  proof (cases "select_last (q p) xs")
    case None
    with for_range_best [OF run] xs show ?thesis by simp
  next
    case (Some y)
    obtain bb qt where y: "y = (bb, qt)" by (cases y)
    from for_range_best [OF run] Some y xs obtain w
      where ev: "evaluate p bb = Inr (w, rgt st, czt st, qt)"
      by auto
    from select_last_Some_index [OF Some] y obtain x where "qt = PFloat x"
      by (cases qt) (auto simp: within_target_def)
    with ev evaluate_float_cz [OF v] show ?thesis by blast
  qed
  then obtain c where c: "czt st = PFloat c" ..
  have m: "(if rgt st > 0 then rgt st else 0) = max (rgt st) 0"
    by (simp add: max_def)
  from run_result_fields [OF res] c m
  have "czt r = PFloat c" "cr05 r = PFloat (c * sqrt (max (rgt r) 0))"
    by (simp_all add: num_mul_float_def)
  then show ?thesis
    by (auto simp: max_def)
qed

subsection \<open>The discharge of a sample\<close>



subsection \<open>The exhausted step budget\<close>

text \<open>
  C5, as amended: for validated arguments, when at each of the \<open>n\<close> widths
  \<open>b0 + i * alh\<close> the discharge is a float below \<open>1.2 q\<close>, the loop runs exactly \<open>n\<close>
  iterations and the call returns, without raising, the record of the last sample within
  the target; that record is all zero when no sample was within the target.
\<close>

theorem budget_exhausted_returns_best:
  assumes "validated p"
    and "\<forall>i<nat (n p). \<exists>w rg cz x.
           evaluate p (b0 p + real i * alh p) = Inr (w, rg, cz, PFloat x) \<and> x < 1.2 * q p"
  shows "\<exists>xs r. compute_channel p = (Some xs, Inr r) \<and> length xs = nat (n p)
           \<and> replay p xs = Inr r
           \<and> ((\<forall>s\<in>set xs. \<not> within_target (q p) s) \<longrightarrow> r = zero_result)"
proof -
  from assms(2) have "\<forall>i<nat (n p). \<exists>w rg cz x.
      evaluate p (b (init_state p) + real i * alh p) = Inr (w, rg, cz, PFloat x) \<and> x < 1.2 * q p"
    by simp
  from for_range_full [OF this] obtain st
    where run: "for_range p (nat (n p)) (init_state p) = (None, st)"
      and len: "length (qfb_dat st) = nat (n p)"
    by auto
  obtain r where r: "make_result st = Inr r"
    by (simp add: make_result_eq)
  from run r assms(1) have cc: "compute_channel p = (Some (qfb_dat st), Inr r)"
    by (simp add: compute_channel_validated)
  have rp: "replay p (qfb_dat st) = Inr r"
    using run_replay [OF run] r by simp
  have "r = zero_result" if "\<forall>s\<in>set (qfb_dat st). \<not> within_target (q p) s"
  proof -
    from that have "select_last (q p) (qfb_dat st) = None"
      by (simp add: select_last_None_iff)
    with rp show ?thesis by (simp add: replay_def)
  qed
  with cc len rp show ?thesis by blast
qed

subsection \<open>Nothing else is rejected\<close>

text \<open>
  C10: when none of the four checks fires, whatever \<open>q\<close>, \<open>mn\<close> and \<open>b0\<close> are, the call
  raises no \<^verbatim>\<open>ValueError\<close>, opens the file and runs the loop from the initial state:
  with a positive budget the first iteration is executed at the width \<open>b0\<close>, where it
  writes the first sample unless its evaluation raises \<^verbatim>\<open>OverflowError\<close>.
\<close>

theorem only_validation_rejects:
  assumes "\<not> (nb p \<le> 0 \<or> h p \<le> 0 \<or> sl p < 0 \<or> jcz p \<notin> {0, 1, 2})"
  shows "(\<forall>msg. snd (compute_channel p) \<noteq> Inl (ValueError msg))
       \<and> (\<exists>e st. for_range p (nat (n p)) (init_state p) = (e, st)
            \<and> fst (compute_channel p) = Some (qfb_dat st)
            \<and> (0 < n p \<longrightarrow>
                  (evaluate p (b0 p) = Inl OverflowError \<and> qfb_dat st = []
                     \<and> snd (compute_channel p) = Inl OverflowError)
                \<or> (qfb_dat st \<noteq> [] \<and> fst (hd (qfb_dat st)) = b0 p)))"
proof -
  from assms have v: "validated p"
    by (simp add: validated_iff)
  obtain e st where run: "for_range p (nat (n p)) (init_state p) = (e, st)"
    by (cases "for_range p (nat (n p)) (init_state p)")
  have "snd (compute_channel p) \<noteq> Inl (ValueError msg)" for msg
  proof (cases e)
    case None
    with run v show ?thesis
      by (simp add: compute_channel_validated make_result_eq)
  next
    case (Some e1)
    with run for_range_raises [OF v] have "e1 = TypeError \<or> e1 = OverflowError"
      by blast
    with Some run v show ?thesis
      by (auto simp: compute_channel_validated)
  qed
  moreover have "fst (compute_channel p) = Some (qfb_dat st)"
    by (rule compute_channel_file [OF v run])
  moreover have "(evaluate p (b0 p) = Inl OverflowError \<and> qfb_dat st = []
                     \<and> snd (compute_channel p) = Inl OverflowError)
                \<or> (qfb_dat st \<noteq> [] \<and> fst (hd (qfb_dat st)) = b0 p)" if "0 < n p"
  proof -
    from that obtain k where k: "nat (n p) = Suc k"
      by (cases "nat (n p)") auto
    with run have "for_range p (Suc k) (init_state p) = (e, st)" by simp
    from for_range_first [OF v this] show ?thesis
    proof
      assume a: "e = Some OverflowError \<and> evaluate p (b (init_state p)) = Inl OverflowError
                  \<and> st = init_state p"
      with run v have "snd (compute_channel p) = Inl OverflowError"
        by (simp add: compute_channel_validated)
      with a show ?thesis by simp
    next
      assume "\<exists>new. qfb_dat st = qfb_dat (init_state p) @ new \<and> new \<noteq> []
                \<and> fst (hd new) = b (init_state p)"
      then show ?thesis by auto
    qed
  qed
  ultimately show ?thesis
    using run by blast
qed

subsection \<open>The properties on concrete arguments\<close>

text \<open>
  With the step \<open>- 1\<close> the widths decrease: both samples are within the target, the
  record holds the width 3 of the last one, and the larger width 4 was evaluated too.
\<close>

theorem largest_width_counterexample:
  "compute_channel ex_negative_step =
     (Some [(4, PFloat 0), (3, PFloat 0)],
      Inr \<lparr>bt = 3, qth = PFloat 0, rgt = 6 / 7, czt = PFloat ((6 / 7) powr (1 / 6)),
           cr05 = PFloat ((6 / 7) powr (1 / 6) * sqrt (6 / 7))\<rparr>)
   \<and> within_target (q ex_negative_step) (4, PFloat 0) \<and> (3::real) < 4"
  using run_negative_step by (simp add: within_target_def ex_negative_step_def)

text \<open>
  The last sample within the target, on \<open>ex_unit_step\<close>.
\<close>

theorem returns_last_within_target_witness:
  "compute_channel ex_unit_step = (Some unit_step_samples, Inr unit_step_result)
   \<and> (\<exists>s\<in>set unit_step_samples. within_target (q ex_unit_step) s)
   \<and> (\<exists>i<length unit_step_samples.
         unit_step_samples ! i = (bt unit_step_result, qth unit_step_result)
         \<and> within_target (q ex_unit_step) (bt unit_step_result, qth unit_step_result)
         \<and> (\<forall>j<length unit_step_samples.
               within_target (q ex_unit_step) (unit_step_samples ! j) \<longrightarrow> j \<le> i)
         \<and> (\<exists>w. evaluate ex_unit_step (bt unit_step_result)
                  = Inr (w, rgt unit_step_result, czt unit_step_result, qth unit_step_result))
         \<and> (0 \<le> alh ex_unit_step \<longrightarrow>
               (\<forall>s\<in>set unit_step_samples.
                  within_target (q ex_unit_step) s \<longrightarrow> fst s \<le> bt unit_step_result)))"
proof -
  have h2: "\<exists>s\<in>set unit_step_samples. within_target (q ex_unit_step) s"
    by (simp add: within_target_def ex_unit_step_def unit_step_samples_def)
  show ?thesis
    by (rule conjI [OF run_unit_step conjI [OF h2 returns_last_within_target [OF run_unit_step h2]]])
qed


text \<open>
  C4: with a negative initial width under the Manning formula and a budget of two
  steps, the discharge of the first step is a complex zero, the number 0, below
  \<open>1.2 q = 1.2\<close>. The width is not advanced and the loop does not continue: the
  comparison of line 58 raises \<^verbatim>\<open>TypeError\<close> after one sample. For a discharge that is
  a float, \<open>loop_body_float\<close> shows the iteration advancing by \<open>alh\<close> and continuing when
  it is below \<open>1.2 q\<close>, and breaking with the width unchanged otherwise.
\<close>

theorem complex_discharge_ends_loop:
  "validated ex_negative_width_two_steps \<and> nat (n ex_negative_width_two_steps) = 2
   \<and> evaluate ex_negative_width_two_steps (b0 ex_negative_width_two_steps)
        = Inr (- 1, - 1, PComplex (cis (pi / 6)), PComplex 0)
   \<and> num_val (PComplex 0) = 0 \<and> (0::real) < 1.2 * q ex_negative_width_two_steps
   \<and> for_range ex_negative_width_two_steps (nat (n ex_negative_width_two_steps))
         (init_state ex_negative_width_two_steps) =
       (Some TypeError,
        \<lparr>bt = 0, qth = PFloat 0, rgt = 0, czt = PFloat 0, b = - 1, qfb_dat = [(- 1, PComplex 0)]\<rparr>)
   \<and> compute_channel ex_negative_width_two_steps = (Some [(- 1, PComplex 0)], Inl TypeError)"
proof -
  have "validated ex_negative_width_two_steps" "nat (n ex_negative_width_two_steps) = 2"
    "(0::real) < 1.2 * q ex_negative_width_two_steps"
    by (simp_all add: validated_def ex_negative_width_two_steps_def)
  moreover have "evaluate ex_negative_width_two_steps (b0 ex_negative_width_two_steps)
        = Inr (- 1, - 1, PComplex (cis (pi / 6)), PComplex 0)"
    by (simp add: ex_negative_width_two_steps_def body_defs py_ops small_powrs Let_def)
  moreover have "num_val (PComplex 0) = 0"
    by (simp add: num_val_def)
  ultimately show ?thesis
    using loop_negative_width_two_steps run_negative_width_two_steps by simp
qed

text \<open>
  With the target 0 the discharge 0 of both widths of the budget never exceeds
  \<open>1.2 q = 0\<close>, yet the test \<open>qt < 1.2 q\<close> fails at once: the loop runs one iteration of
  its budget of two.
\<close>

theorem budget_counterexample:
  "validated ex_zero_target \<and> nat (n ex_zero_target) = 2
   \<and> evaluate ex_zero_target (b0 ex_zero_target + real (0::nat) * alh ex_zero_target)
        = Inr (8, 1, PFloat 1, PFloat 0)
   \<and> evaluate ex_zero_target (b0 ex_zero_target + real (1::nat) * alh ex_zero_target)
        = Inr (10, 10 / 9, PFloat ((10 / 9) powr (1 / 6)), PFloat 0)
   \<and> \<not> (0 > 1.2 * q ex_zero_target)
   \<and> compute_channel ex_zero_target =
       (Some [(4, PFloat 0)],
        Inr \<lparr>bt = 4, qth = PFloat 0, rgt = 1, czt = PFloat 1, cr05 = PFloat 1\<rparr>)"
proof -
  have w: "b0 ex_zero_target + real (0::nat) * alh ex_zero_target = 4"
    "b0 ex_zero_target + real (1::nat) * alh ex_zero_target = 5"
    by (simp_all add: ex_zero_target_def)
  have v: "validated ex_zero_target" "nat (n ex_zero_target) = 2" "\<not> (0 > 1.2 * q ex_zero_target)"
    by (simp_all add: validated_def ex_zero_target_def)
  from v run_zero_target eval_zero_target_4 eval_zero_target_5 show ?thesis
    by (simp only: w simp_thms)
qed

text \<open>
  The exhausted budget on \<open>ex_unit_step\<close>.
\<close>

theorem budget_exhausted_returns_best_witness:
  "validated ex_unit_step \<and> nat (n ex_unit_step) = 2 \<and> (0::real) < 1.2 * q ex_unit_step
   \<and> evaluate ex_unit_step (b0 ex_unit_step + real (0::nat) * alh ex_unit_step)
        = Inr (8, 1, PFloat 1, PFloat 0)
   \<and> evaluate ex_unit_step (b0 ex_unit_step + real (1::nat) * alh ex_unit_step)
        = Inr (10, 10 / 9, PFloat ((10 / 9) powr (1 / 6)), PFloat 0)
   \<and> (\<exists>xs r. compute_channel ex_unit_step = (Some xs, Inr r) \<and> length xs = nat (n ex_unit_step)
         \<and> replay ex_unit_step xs = Inr r
         \<and> ((\<forall>s\<in>set xs. \<not> within_target (q ex_unit_step) s) \<longrightarrow> r = zero_result))"
proof -
  have lt: "(0::real) < 1.2 * q ex_unit_step" and n2: "nat (n ex_unit_step) = 2"
    by (simp_all add: ex_unit_step_def)
  have w: "b0 ex_unit_step + real (0::nat) * alh ex_unit_step = 4"
    "b0 ex_unit_step + real (1::nat) * alh ex_unit_step = 5"
    by (simp_all add: ex_unit_step_def)
  have e0: "evaluate ex_unit_step (b0 ex_unit_step + real (0::nat) * alh ex_unit_step)
              = Inr (8, 1, PFloat 1, PFloat 0)"
    by (simp only: w eval_unit_step_4)
  have e1: "evaluate ex_unit_step (b0 ex_unit_step + real (1::nat) * alh ex_unit_step)
              = Inr (10, 10 / 9, PFloat ((10 / 9) powr (1 / 6)), PFloat 0)"
    by (simp only: w eval_unit_step_5)
  have h2: "\<forall>i<nat (n ex_unit_step). \<exists>w rg cz x.
         evaluate ex_unit_step (b0 ex_unit_step + real i * alh ex_unit_step) = Inr (w, rg, cz, PFloat x)
         \<and> x < 1.2 * q ex_unit_step"
  proof (intro allI impI)
    fix i assume "i < nat (n ex_unit_step)"
    with n2 have "i = 0 \<or> i = 1" by auto
    then show "\<exists>w rg cz x.
         evaluate ex_unit_step (b0 ex_unit_step + real i * alh ex_unit_step) = Inr (w, rg, cz, PFloat x)
         \<and> x < 1.2 * q ex_unit_step"
    proof
      assume "i = 0"
      with e0 lt show ?thesis by blast
    next
      assume "i = 1"
      with e1 lt show ?thesis by blast
    qed
  qed
  note c = budget_exhausted_returns_best [OF validated_unit_step h2]
  show ?thesis
    by (intro conjI validated_unit_step n2 lt e0 e1 c)
qed

text \<open>
  C6: on validated arguments the division, the logarithm and the square roots never raise
  (\<open>evaluate_raises\<close>: an evaluation raises nothing but the \<^verbatim>\<open>OverflowError\<close> of a
  power), but the power of lines 43 and 48 has no guard for a negative base. With the
  initial width \<open>- 1\<close> the hydraulic radius is \<open>- 1\<close>, its power \<open>1 / 6\<close> is a complex
  number, the sample is written with a complex zero as discharge, and the comparison of
  line 58 raises \<^verbatim>\<open>TypeError\<close> in the first iteration.
\<close>

theorem negative_radius_raises_type_error:
  "validated ex_negative_width_manning
   \<and> evaluate ex_negative_width_manning (- 1) = Inr (- 1, - 1, PComplex (cis (pi / 6)), PComplex 0)
   \<and> compute_channel ex_negative_width_manning = (Some [(- 1, PComplex 0)], Inl TypeError)"
proof -
  have "validated ex_negative_width_manning"
    by (simp add: validated_def ex_negative_width_manning_def)
  then show ?thesis
    using run_negative_width_manning eval_negative_width_manning by simp
qed



text \<open>
  Under the Agroskin formula a negative hydraulic radius is retained: the returned
  \<open>rgt\<close> is \<open>- 1\<close>, which has no square root (\<^verbatim>\<open>math.sqrt\<close> raises on it), and \<open>cr05\<close>
  is 0 while \<open>czt\<close> is not.
\<close>

theorem negative_radius_counterexample:
  "compute_channel ex_negative_width_agroskin =
     (Some [(- 1, PFloat 0)],
      Inr \<lparr>bt = - 1, qth = PFloat 0, rgt = - 1, czt = PFloat (- 211.64), cr05 = PFloat 0\<rparr>)
   \<and> math_sqrt (- 1) = Inl (ValueError ''math domain error'')
   \<and> PFloat 0 \<noteq> num_mul_float (PFloat (- 211.64)) (sqrt (- 1))"
  using run_negative_width_agroskin
  by (simp add: math_sqrt_def num_mul_float_def real_sqrt_minus)

text \<open>
  The conveyance figure of \<open>ex_unit_step\<close>.
\<close>

theorem cr05_value_witness:
  "compute_channel ex_unit_step = (Some unit_step_samples, Inr unit_step_result)
   \<and> (\<exists>c. czt unit_step_result = PFloat c
         \<and> cr05 unit_step_result = PFloat (c * sqrt (max (rgt unit_step_result) 0))
         \<and> (0 \<le> rgt unit_step_result \<longrightarrow> cr05 unit_step_result = PFloat (c * sqrt (rgt unit_step_result))))"
  by (rule conjI [OF run_unit_step cr05_value [OF run_unit_step]])

text \<open>
  The initial width \<open>2\<^sup>-\<^sup>3\<^sup>4\<close> is written to the file as \<open>0.0000000001\<close>: the record
  returned has \<open>bt = 2\<^sup>-\<^sup>3\<^sup>4\<close>, the replay of the text of the file has \<open>bt = 10\<^sup>-\<^sup>1\<^sup>0\<close>.
\<close>

theorem replay_file_text_counterexample:
  "validated ex_small_width
   \<and> fst (compute_channel ex_small_width) = Some [(1 / 2 ^ 34, PFloat 0)]
   \<and> map_sum id bt (snd (compute_channel ex_small_width)) = Inr (1 / 2 ^ 34)
   \<and> file_text [(1 / 2 ^ 34, PFloat 0)] = [(1 / 10 ^ 10, PFloat 0)]
   \<and> map_sum id bt (replay ex_small_width (file_text [(1 / 2 ^ 34, PFloat 0)])) = Inr (1 / 10 ^ 10)
   \<and> replay ex_small_width (file_text [(1 / 2 ^ 34, PFloat 0)]) \<noteq> snd (compute_channel ex_small_width)"
proof -
  have v: "validated ex_small_width"
    by (simp add: validated_def ex_small_width_def)
  have r: "fst (compute_channel ex_small_width) = Some [(1 / 2 ^ 34, PFloat 0)]"
    "map_sum id bt (snd (compute_channel ex_small_width)) = Inr (1 / 2 ^ 34)"
    by (simp_all add: compute_channel_def init_state_def make_result_def ex_small_width_def
        body_defs py_ops Let_def)
  have t: "file_text [(1 / 2 ^ 34, PFloat 0)] = [(1 / 10 ^ 10, PFloat 0)]"
    by (simp add: file_text_def render_num_def render10_def round_half_even_def)
  have p: "map_sum id bt (replay ex_small_width [(1 / 10 ^ 10, PFloat 0)]) = Inr (1 / 10 ^ 10)"
    by (simp add: replay_def select_last_def within_target_def ex_small_width_def
        body_defs py_ops Let_def)
  have "replay ex_small_width [(1 / 10 ^ 10, PFloat 0)] \<noteq> snd (compute_channel ex_small_width)"
  proof
    assume "replay ex_small_width [(1 / 10 ^ 10, PFloat 0)] = snd (compute_channel ex_small_width)"
    with p r(2) have "(Inr (1 / 10 ^ 10) :: error + real) = Inr (1 / 2 ^ 34)"
      by simp
    then show False by simp
  qed
  with v r t p show ?thesis by simp
qed

text \<open>
  The replay of \<open>ex_unit_step\<close>.
\<close>

theorem replay_reproduces_result_witness:
  "validated ex_unit_step
   \<and> compute_channel ex_unit_step = (Some unit_step_samples, Inr unit_step_result)
   \<and> replay ex_unit_step unit_step_samples = Inr unit_step_result"
  by (rule conjI [OF validated_unit_step
        conjI [OF run_unit_step replay_reproduces_result [OF validated_unit_step run_unit_step]]])

text \<open>Arguments with a negative target, side slope and initial width are not rejected.\<close>

theorem only_validation_rejects_witness:
  "q ex_negative_inputs \<le> 0 \<and> mn ex_negative_inputs < 0 \<and> b0 ex_negative_inputs < 0
   \<and> \<not> (nb ex_negative_inputs \<le> 0 \<or> h ex_negative_inputs \<le> 0 \<or> sl ex_negative_inputs < 0
          \<or> jcz ex_negative_inputs \<notin> {0, 1, 2})
   \<and> ((\<forall>msg. snd (compute_channel ex_negative_inputs) \<noteq> Inl (ValueError msg))
       \<and> (\<exists>e st. for_range ex_negative_inputs (nat (n ex_negative_inputs))
                    (init_state ex_negative_inputs) = (e, st)
            \<and> fst (compute_channel ex_negative_inputs) = Some (qfb_dat st)
            \<and> (0 < n ex_negative_inputs \<longrightarrow>
                  (evaluate ex_negative_inputs (b0 ex_negative_inputs) = Inl OverflowError
                     \<and> qfb_dat st = []
                     \<and> snd (compute_channel ex_negative_inputs) = Inl OverflowError)
                \<or> (qfb_dat st \<noteq> [] \<and> fst (hd (qfb_dat st)) = b0 ex_negative_inputs))))"
proof -
  have a: "q ex_negative_inputs \<le> 0" "mn ex_negative_inputs < 0" "b0 ex_negative_inputs < 0"
    by (simp_all add: ex_negative_inputs_def)
  have h: "\<not> (nb ex_negative_inputs \<le> 0 \<or> h ex_negative_inputs \<le> 0 \<or> sl ex_negative_inputs < 0
          \<or> jcz ex_negative_inputs \<notin> {0, 1, 2})"
    by (simp add: ex_negative_inputs_def)
  show ?thesis
    by (rule conjI [OF a(1) conjI [OF a(2) conjI [OF a(3)
          conjI [OF h only_validation_rejects [OF h]]]]])
qed


end
